theory Spec2Isabelle
  imports Complex_Main "HOL-Library.Sublist" "HOL-Library.Product_Lexorder"
begin

section \<open>The PDF search engine of app.py\<close>

text \<open>
  A shallow embedding of class \<open>PDFSearcher\<close> of \<open>app.py\<close>: the text extractor, the two
  term matchers, the scan loop of \<open>search_pdfs\<close> with its result cap, and the final sort.

  Python strings are lists of characters; a \<^typ>\<open>char\<close> stands for the code point of the
  same number, so the model covers the code points below 256. The file system is a value
  the search reads, and every read is written to a log, so that what the code touches is
  part of what a function returns.
\<close>

subsection \<open>Strings\<close>

definition backslash :: char where
  "backslash = CHR 0x5C"

definition newline :: char where
  "newline = CHR 0x0A"

text \<open>\<open>str.isspace\<close> on one character, which is also what \<open>\s\<close> matches in a pattern.\<close>

definition isspace :: "char \<Rightarrow> bool" where
  "isspace c = (let n = (of_char c :: nat)
                in (9 \<le> n \<and> n \<le> 13) \<or> (28 \<le> n \<and> n \<le> 32) \<or> n = 133 \<or> n = 160)"

text \<open>\<open>str.strip()\<close>: leading and trailing whitespace removed.\<close>

definition strip :: "string \<Rightarrow> string" where
  "strip s = rev (dropWhile isspace (rev (dropWhile isspace s)))"

text \<open>\<open>str.lower()\<close>, one character at a time.\<close>

definition lower_char :: "char \<Rightarrow> char" where
  "lower_char c = (let n = (of_char c :: nat)
                   in if (65 \<le> n \<and> n \<le> 90) \<or> (192 \<le> n \<and> n \<le> 222 \<and> n \<noteq> 215)
                      then char_of (n + 32) else c)"

definition lower :: "string \<Rightarrow> string" where
  "lower s = map lower_char s"

text \<open>\<open>s.replace(c, new)\<close> for a one-character \<open>c\<close>.\<close>

definition replace :: "char \<Rightarrow> string \<Rightarrow> string \<Rightarrow> string" where
  "replace c new s = concat (map (\<lambda>x. if x = c then new else [x]) s)"

text \<open>
  \<open>re.escape\<close>, as it is since Python 3.7: a backslash before each of the characters
  \<open>( ) [ ] { } ? * + - | ^ $ \ . & ~ #\<close>, space, tab, newline, carriage return,
  vertical tab and form feed.
\<close>

definition special_chars :: "char list" where
  "special_chars = ''()[]{}?*+-|^$.&~# '' @
     [backslash, CHR 0x09, CHR 0x0A, CHR 0x0D, CHR 0x0B, CHR 0x0C]"

definition re_escape :: "string \<Rightarrow> string" where
  "re_escape s = concat (map (\<lambda>x. if x \<in> set special_chars then [backslash, x] else [x]) s)"

subsection \<open>Configuration\<close>

record config =
  search_directory :: string
  case_sensitive :: bool
  search_subdirectories :: bool
  max_results :: int

subsection \<open>Matching a filename\<close>

text \<open>
  The search terms are a dictionary from field name to query string, read in insertion
  order: an association list.
\<close>

type_synonym search_terms = "(string \<times> string) list"

fun search_in_filename :: "config \<Rightarrow> string \<Rightarrow> search_terms \<Rightarrow> string list" where
  "search_in_filename cfg filename [] = []"
| "search_in_filename cfg filename ((term_type, term_value) # rest) =
     (let filename_search = (if \<not> case_sensitive cfg then lower filename else filename);
          term_search = (if \<not> case_sensitive cfg then lower term_value else term_value)
      in if term_value \<noteq> [] \<and> sublist term_search filename_search
         then term_type # search_in_filename cfg filename rest
         else search_in_filename cfg filename rest)"

subsection \<open>Matching extracted text\<close>

text \<open>
  The exceptions of the model: the one \<open>search_pdfs\<close> raises itself, the one of a
  failing \<open>stat()\<close>, and two that \<open>re.search\<close> raises and that are not \<open>re.error\<close>.
\<close>

datatype error = FileNotFoundError | OSError | OverflowError | RecursionError

text \<open>
  \<open>re.search(pattern, content, flags)\<close> is the library's: the matchers take it as a
  parameter. Its first argument says whether \<open>re.IGNORECASE\<close> is set. It answers a
  match object (\<open>Matched\<close>) or \<open>None\<close> (\<open>NoMatch\<close>), or raises \<open>re.error\<close>
  (\<open>PatternError\<close>), or raises another exception (\<open>Raised\<close>).
\<close>

datatype re_answer = Matched | NoMatch | PatternError | Raised error

type_synonym re_engine = "bool \<Rightarrow> string \<Rightarrow> string \<Rightarrow> re_answer"

definition patterns :: "string \<Rightarrow> string list" where
  "patterns term_search =
     [term_search,
      re_escape term_search,
      replace CHR ''-'' (''[-'' @ [backslash] @ ''s]?'') term_search,
      replace CHR ''/'' (''[/'' @ [backslash] @ ''s]?'') term_search,
      replace CHR '' '' ([backslash] @ ''s+'') term_search]"

text \<open>
  The inner loop, answering \<open>found\<close>: the first pattern that matches ends it, and
  \<open>except re.error: continue\<close> passes over a pattern on which the library raises
  \<open>re.error\<close>. Any other exception of the library is not caught here and leaves the
  loop.
\<close>

fun try_patterns :: "re_engine \<Rightarrow> bool \<Rightarrow> string list \<Rightarrow> string \<Rightarrow> error + bool" where
  "try_patterns rs ic [] content = Inr False"
| "try_patterns rs ic (pattern # rest) content =
     (case rs ic pattern content of
        Matched \<Rightarrow> Inr True
      | NoMatch \<Rightarrow> try_patterns rs ic rest content
      | PatternError \<Rightarrow> try_patterns rs ic rest content
      | Raised e \<Rightarrow> Inl e)"

text \<open>The loop over the terms; an exception that leaves the inner loop leaves this one too.\<close>

fun search_in_content ::
  "config \<Rightarrow> re_engine \<Rightarrow> string \<Rightarrow> search_terms \<Rightarrow> error + string list" where
  "search_in_content cfg rs content [] = Inr []"
| "search_in_content cfg rs content ((term_type, term_value) # rest) =
     (let term_search = (if \<not> case_sensitive cfg then lower term_value else term_value)
      in if term_value \<noteq> []
         then (case try_patterns rs (\<not> case_sensitive cfg) (patterns term_search) content of
                 Inl e \<Rightarrow> Inl e
               | Inr found \<Rightarrow>
                   (case search_in_content cfg rs content rest of
                      Inl e \<Rightarrow> Inl e
                    | Inr matches \<Rightarrow> Inr (if found then term_type # matches else matches)))
         else search_in_content cfg rs content rest)"

subsection \<open>The file system\<close>

text \<open>
  What the search reads of one \<open>.pdf\<close> path: its name, its full and relative path as
  strings, what \<open>PyPDF2\<close> makes of it, and what \<open>stat()\<close> answers. \<open>pdf_pages\<close> is
  \<open>None\<close> when opening or parsing the file raises; otherwise it lists the pages, each
  \<open>Some\<close> of the page's text or \<open>None\<close> when \<open>extract_text()\<close> raises on that page.
  \<open>pdf_stat\<close> is \<open>None\<close> when \<open>stat()\<close> raises, else the size in bytes and the
  modification time. The time is a finite float that the program only compares: a real.
  \<open>relative_to\<close> does not fail on a path that the listing of the search directory
  returned, so the relative path is a plain string.
\<close>

record pdf_file =
  pdf_name :: string
  pdf_path :: string
  pdf_relative :: string
  pdf_pages :: "string option list option"
  pdf_stat :: "(nat \<times> real) option"

record file_system =
  path_exists :: "string \<Rightarrow> bool"
  rglob :: "string \<Rightarrow> pdf_file list"
  glob :: "string \<Rightarrow> pdf_file list"

datatype fs_op = Exists string | Rglob string | Glob string | Open string | Stat string

subsection \<open>Text extraction\<close>

text \<open>The loop over the pages: a page with no text adds nothing, a page that raises ends it.\<close>

fun read_pages :: "string option list \<Rightarrow> string option" where
  "read_pages [] = Some []"
| "read_pages (None # rest) = None"
| "read_pages (Some page_text # rest) =
     (case read_pages rest of
        None \<Rightarrow> None
      | Some text \<Rightarrow> Some ((if page_text \<noteq> [] then page_text @ [newline] else []) @ text))"

definition extract_text_from_pdf :: "config \<Rightarrow> pdf_file \<Rightarrow> string" where
  "extract_text_from_pdf cfg pdf =
     (case pdf_pages pdf of
        None \<Rightarrow> []
      | Some pages \<Rightarrow>
          (let max_pages = min (length pages) 5
           in case read_pages (take max_pages pages) of
                None \<Rightarrow> []
              | Some text \<Rightarrow> if \<not> case_sensitive cfg then lower text else text))"

subsection \<open>The scan\<close>

record search_result =
  filename :: string
  path :: string
  relative_path :: string
  matches :: "string set"
  filename_matches :: "string list"
  content_matches :: "string list"
  size_bytes :: nat
  modified :: real
  relevance_score :: nat

text \<open>
  The body of the \<open>try\<close> for one file. It answers the file-system reads it made and
  either the exception raised (\<open>Inl\<close>: by the content matcher, or by \<open>stat()\<close>), or
  \<open>Inr None\<close> for a file that is not included, or \<open>Inr (Some r)\<close> for the record to
  append. \<open>list(set(...))\<close> lists every matched field name once, in an order Python
  does not fix: \<open>matches\<close> is the set, and its length the number of its elements.
\<close>

definition process_file ::
  "config \<Rightarrow> re_engine \<Rightarrow> search_terms \<Rightarrow> bool \<Rightarrow> pdf_file
     \<Rightarrow> fs_op list \<times> (error + search_result option)" where
  "process_file cfg rs terms match_all pdf =
     (let fm = search_in_filename cfg (pdf_name pdf) terms;
          extract = (fm = [] \<or> match_all);
          opened = (if extract then [Open (pdf_path pdf)] else [])
      in case (if extract
               then search_in_content cfg rs (extract_text_from_pdf cfg pdf) terms
               else Inr []) of
           Inl e \<Rightarrow> (opened, Inl e)
         | Inr cm \<Rightarrow>
             (let all_matches = set (fm @ cm);
                  should_include = (if match_all
                                    then set (map fst terms) \<subseteq> all_matches
                                    else card all_matches > 0)
              in if should_include
                 then (case pdf_stat pdf of
                         None \<Rightarrow> (opened @ [Stat (pdf_path pdf)], Inl OSError)
                       | Some (sz, mtime) \<Rightarrow>
                           (opened @ [Stat (pdf_path pdf), Stat (pdf_path pdf)],
                            Inr (Some \<lparr> filename = pdf_name pdf,
                                        path = pdf_path pdf,
                                        relative_path = pdf_relative pdf,
                                        matches = all_matches,
                                        filename_matches = fm,
                                        content_matches = cm,
                                        size_bytes = sz,
                                        modified = mtime,
                                        relevance_score = card all_matches \<rparr>)))
                 else (opened, Inr None)))"

text \<open>
  The \<open>for\<close> loop over the enumerated files, with the accumulated \<open>results\<close>: the cap is
  tested before each file, and \<open>except Exception: continue\<close> goes on with the next file.
\<close>

fun scan ::
  "config \<Rightarrow> re_engine \<Rightarrow> search_terms \<Rightarrow> bool \<Rightarrow> pdf_file list \<Rightarrow> search_result list
     \<Rightarrow> fs_op list \<times> search_result list" where
  "scan cfg rs terms match_all [] results = ([], results)"
| "scan cfg rs terms match_all (pdf # rest) results =
     (if int (length results) \<ge> max_results cfg then ([], results)
      else (case process_file cfg rs terms match_all pdf of
              (ops, Inl e) \<Rightarrow>
                (case scan cfg rs terms match_all rest results of
                   (ops', out) \<Rightarrow> (ops @ ops', out))
            | (ops, Inr None) \<Rightarrow>
                (case scan cfg rs terms match_all rest results of
                   (ops', out) \<Rightarrow> (ops @ ops', out))
            | (ops, Inr (Some r)) \<Rightarrow>
                (case scan cfg rs terms match_all rest (results @ [r]) of
                   (ops', out) \<Rightarrow> (ops @ ops', out))))"

subsection \<open>Ranking and the search\<close>

text \<open>
  \<open>results.sort(key=..., reverse=True)\<close>: Python reverses the list, sorts it stably by
  the key and reverses it again. Pairs are compared lexicographically.
\<close>

definition sort_key_of :: "search_result \<Rightarrow> nat \<times> real" where
  "sort_key_of x = (relevance_score x, modified x)"

definition rank :: "search_result list \<Rightarrow> search_result list" where
  "rank results = rev (sort_key sort_key_of (rev results))"

text \<open>The dictionary of the stripped terms, with the empty ones filtered out.\<close>

definition criteria :: "string \<Rightarrow> string \<Rightarrow> string \<Rightarrow> search_terms" where
  "criteria expediente sello caratula =
     filter (\<lambda>(k, v). v \<noteq> [])
       [(''expediente'', strip expediente),
        (''sello'', strip sello),
        (''caratula'', strip caratula)]"

definition search_pdfs ::
  "config \<Rightarrow> re_engine \<Rightarrow> file_system \<Rightarrow> string \<Rightarrow> string \<Rightarrow> string \<Rightarrow> bool
     \<Rightarrow> fs_op list \<times> (error + search_result list)" where
  "search_pdfs cfg rs fs expediente sello caratula match_all =
     (let search_terms = criteria expediente sello caratula
      in if search_terms = [] then ([], Inr [])
         else if \<not> path_exists fs (search_directory cfg)
         then ([Exists (search_directory cfg)], Inl FileNotFoundError)
         else (let listing = (if search_subdirectories cfg
                              then Rglob (search_directory cfg)
                              else Glob (search_directory cfg));
                   pdf_files = (if search_subdirectories cfg
                                then rglob fs (search_directory cfg)
                                else glob fs (search_directory cfg))
               in case scan cfg rs search_terms match_all pdf_files [] of
                    (ops, results) \<Rightarrow>
                      (Exists (search_directory cfg) # listing # ops, Inr (rank results))))"

subsection \<open>The library's pattern search, on a fragment of its syntax\<close>

text \<open>
  The theorems about the scan hold for every \<^typ>\<open>re_engine\<close>. The statements about
  particular terms need the answers of Python's \<open>re.search\<close>, which is modelled here for
  the patterns made of
  \<^item> a character other than \<open>\ . ^ $ * + ? { } [ ] ( ) |\<close>, standing for itself;
  \<^item> \<open>.\<close>, any character but the newline;
  \<^item> \<open>\s\<close>, a whitespace character, and a backslash before a character that is neither
    an ASCII letter nor a digit, standing for that character;
  \<^item> a set \<open>[...]\<close> of such characters and \<open>\s\<close>, where \<open>-\<close> is the first or the last
    member;
  \<^item> one of \<open>?\<close>, \<open>*\<close>, \<open>+\<close> after any of these.
  The parser answers \<open>Malformed\<close> where \<open>re\<close> raises \<open>re.error\<close> on such a pattern (a
  quantifier with nothing to repeat, a pattern that ends inside a set or after a
  backslash). It answers \<open>TooLarge\<close> where, after such a pattern, a repeat count
  \<open>{n}\<close> follows with \<open>n\<close> not below the library's \<open>MAXREPEAT\<close>: there \<open>re\<close> raises
  \<open>OverflowError\<close>, before it looks at what the count repeats and at what follows it,
  unless one backslash ends the pattern there, which the library's tokenizer has already
  refused with \<open>re.error\<close>. It answers \<open>Unsupported\<close> for everything else, which the
  model does not describe.
\<close>

datatype class_item = CLit char | CSpace

datatype atom = Lit char | AnyChar | Space | Class "class_item list"

datatype quant = One | Opt | Star | Plus

type_synonym item = "atom \<times> quant"

datatype parsed = Parsed "item list" | Malformed | TooLarge | Unsupported

datatype mode =
  Normal | Escape | InClass "class_item list" | ClassEscape "class_item list"
  | ClassDash "class_item list" | Count int

text \<open>\<open>_sre.MAXREPEAT\<close> of a 64-bit build.\<close>

definition MAXREPEAT :: int where
  "MAXREPEAT = 4294967295"

definition is_digit :: "char \<Rightarrow> bool" where
  "is_digit c = (let n = (of_char c :: nat) in 48 \<le> n \<and> n \<le> 57)"

definition digit_value :: "char \<Rightarrow> int" where
  "digit_value c = of_char c - 48"

definition ascii_alnum :: "char \<Rightarrow> bool" where
  "ascii_alnum c = (let n = (of_char c :: nat)
                    in (48 \<le> n \<and> n \<le> 57) \<or> (65 \<le> n \<and> n \<le> 90) \<or> (97 \<le> n \<and> n \<le> 122))"

definition quant_of :: "char \<Rightarrow> quant" where
  "quant_of c = (if c = CHR ''?'' then Opt else if c = CHR ''*'' then Star else Plus)"

text \<open>
  The items read so far are kept in reverse, the last one first. \<open>Count n\<close> is the state
  after \<open>{\<close> and at least one digit, \<open>n\<close> the number read so far.
\<close>

fun parse_re :: "mode \<Rightarrow> item list \<Rightarrow> string \<Rightarrow> parsed" where
  "parse_re Normal acc [] = Parsed (rev acc)"
| "parse_re Escape acc [] = Malformed"
| "parse_re (InClass its) acc [] = Malformed"
| "parse_re (ClassEscape its) acc [] = Malformed"
| "parse_re (ClassDash its) acc [] = Malformed"
| "parse_re (Count n) acc [] = Unsupported"
| "parse_re Normal acc (c # cs) =
     (if c = backslash then parse_re Escape acc cs
      else if c = CHR ''['' then parse_re (InClass []) acc cs
      else if c \<in> set ''?*+'' then
        (case acc of
           [] \<Rightarrow> Malformed
         | (a, One) # acc' \<Rightarrow> parse_re Normal ((a, quant_of c) # acc') cs
         | _ \<Rightarrow> Unsupported)
      else if c = CHR ''.'' then parse_re Normal ((AnyChar, One) # acc) cs
      else if c = CHR ''{'' then
        (case cs of
           [] \<Rightarrow> Unsupported
         | d # ds \<Rightarrow> if is_digit d then parse_re (Count (digit_value d)) acc ds
                     else Unsupported)
      else if c \<in> set ''^$()}|]'' then Unsupported
      else parse_re Normal ((Lit c, One) # acc) cs)"
| "parse_re Escape acc (c # cs) =
     (if c = CHR ''s'' then parse_re Normal ((Space, One) # acc) cs
      else if ascii_alnum c then Unsupported
      else parse_re Normal ((Lit c, One) # acc) cs)"
| "parse_re (InClass its) acc (c # cs) =
     (if c = CHR '']'' then
        (if its = [] then Unsupported
         else parse_re Normal ((Class (rev its), One) # acc) cs)
      else if c = backslash then parse_re (ClassEscape its) acc cs
      else if c = CHR ''['' \<or> (c = CHR ''^'' \<and> its = []) then Unsupported
      else if c = CHR ''-'' \<and> its \<noteq> [] then parse_re (ClassDash its) acc cs
      else parse_re (InClass (CLit c # its)) acc cs)"
| "parse_re (ClassEscape its) acc (c # cs) =
     (if c = CHR ''s'' then parse_re (InClass (CSpace # its)) acc cs
      else if ascii_alnum c then Unsupported
      else parse_re (InClass (CLit c # its)) acc cs)"
| "parse_re (ClassDash its) acc (c # cs) =
     (if c = CHR '']'' then parse_re Normal ((Class (rev (CLit CHR ''-'' # its)), One) # acc) cs
      else Unsupported)"
| "parse_re (Count n) acc (c # cs) =
     (if is_digit c then parse_re (Count (10 * n + digit_value c)) acc cs
      else if c = CHR ''}'' \<and> n \<ge> MAXREPEAT then TooLarge
      else Unsupported)"

fun class_item_ok :: "bool \<Rightarrow> class_item \<Rightarrow> char \<Rightarrow> bool" where
  "class_item_ok ic (CLit x) c = (if ic then lower_char x = lower_char c else x = c)"
| "class_item_ok ic CSpace c = isspace c"

fun atom_ok :: "bool \<Rightarrow> atom \<Rightarrow> char \<Rightarrow> bool" where
  "atom_ok ic (Lit x) c = (if ic then lower_char x = lower_char c else x = c)"
| "atom_ok ic AnyChar c = (c \<noteq> newline)"
| "atom_ok ic Space c = isspace c"
| "atom_ok ic (Class its) c = list_ex (\<lambda>i. class_item_ok ic i c) its"

text \<open>Whether the items match a prefix of the text.\<close>

fun match_here :: "bool \<Rightarrow> item list \<Rightarrow> string \<Rightarrow> bool" where
  "match_here ic [] s = True"
| "match_here ic ((a, One) # r) [] = False"
| "match_here ic ((a, One) # r) (c # cs) = (atom_ok ic a c \<and> match_here ic r cs)"
| "match_here ic ((a, Opt) # r) [] = match_here ic r []"
| "match_here ic ((a, Opt) # r) (c # cs) =
     ((atom_ok ic a c \<and> match_here ic r cs) \<or> match_here ic r (c # cs))"
| "match_here ic ((a, Star) # r) [] = match_here ic r []"
| "match_here ic ((a, Star) # r) (c # cs) =
     ((atom_ok ic a c \<and> match_here ic ((a, Star) # r) cs) \<or> match_here ic r (c # cs))"
| "match_here ic ((a, Plus) # r) [] = False"
| "match_here ic ((a, Plus) # r) (c # cs) =
     (atom_ok ic a c \<and> match_here ic ((a, Star) # r) cs)"

text \<open>Whether they match somewhere in the text: at its start, or in its tail.\<close>

fun match_anywhere :: "bool \<Rightarrow> item list \<Rightarrow> string \<Rightarrow> bool" where
  "match_anywhere ic items [] = match_here ic items []"
| "match_anywhere ic items (c # cs) =
     (match_here ic items (c # cs) \<or> match_anywhere ic items cs)"

text \<open>
  The search as an \<^typ>\<open>re_engine\<close>. For a pattern that the model does not describe it
  hands over to \<open>beyond\<close>, which stands for what the library does there: what is proved
  of \<open>re_search beyond\<close> for every \<open>beyond\<close> holds of the library.
\<close>

definition re_search :: "re_engine \<Rightarrow> re_engine" where
  "re_search beyond ic pattern content =
     (case parse_re Normal [] pattern of
        Parsed items \<Rightarrow> if match_anywhere ic items content then Matched else NoMatch
      | Malformed \<Rightarrow> PatternError
      | TooLarge \<Rightarrow> Raised OverflowError
      | Unsupported \<Rightarrow> beyond ic pattern content)"

text \<open>
  The evaluations below need one engine to run. None of them reaches this one: the
  lemmas they rest on are proved for every \<open>beyond\<close>.
\<close>

definition unreached :: re_engine where
  "unreached ic pattern content = NoMatch"

text \<open>
  The characters that mean something in a pattern outside a set, and the terms free of
  them: in such a term the hyphen variant turns every other character into itself.
\<close>

definition metachars :: "char list" where
  "metachars = ''.^$*+?{}[]()|'' @ [backslash]"

definition plain :: "char \<Rightarrow> bool" where
  "plain c = (c \<notin> set metachars)"

definition without_hyphens :: "string \<Rightarrow> string" where
  "without_hyphens s = filter (\<lambda>c. c \<noteq> CHR ''-'') s"

text \<open>What the hyphen variant of a term of plain characters parses to.\<close>

definition hyphen_items :: "string \<Rightarrow> item list" where
  "hyphen_items s =
     map (\<lambda>c. if c = CHR ''-'' then (Class [CLit CHR ''-'', CSpace], Opt) else (Lit c, One)) s"

subsection \<open>What a scan appends\<close>

text \<open>
  The record a file adds to the results, if any, and the records that the files of a
  listing add when no cap is in the way. They are used to state what the loop computes.
\<close>

definition appended ::
  "config \<Rightarrow> re_engine \<Rightarrow> search_terms \<Rightarrow> bool \<Rightarrow> pdf_file \<Rightarrow> search_result list" where
  "appended cfg rs terms match_all pdf =
     (case snd (process_file cfg rs terms match_all pdf) of
        Inr (Some r) \<Rightarrow> [r]
      | _ \<Rightarrow> [])"

definition hits ::
  "config \<Rightarrow> re_engine \<Rightarrow> search_terms \<Rightarrow> bool \<Rightarrow> pdf_file list \<Rightarrow> search_result list" where
  "hits cfg rs terms match_all files = concat (map (appended cfg rs terms match_all) files)"

definition pdf_files :: "config \<Rightarrow> file_system \<Rightarrow> pdf_file list" where
  "pdf_files cfg fs =
     (if search_subdirectories cfg then rglob fs (search_directory cfg)
      else glob fs (search_directory cfg))"

text \<open>The paths of the files a search returned; none when it failed.\<close>

definition returned_paths :: "error + search_result list \<Rightarrow> string set" where
  "returned_paths answer = (case answer of Inl e \<Rightarrow> {} | Inr results \<Rightarrow> set (map path results))"

subsection \<open>Sample configurations and corpora\<close>

text \<open>The fallback values of \<open>__init__\<close>.\<close>

definition default_config :: config where
  "default_config = \<lparr> search_directory = ''./pdfs'', case_sensitive = False,
                       search_subdirectories = True, max_results = 100 \<rparr>"

definition missing_root :: file_system where
  "missing_root = \<lparr> path_exists = (\<lambda>p. False), rglob = (\<lambda>p. []), glob = (\<lambda>p. []) \<rparr>"

text \<open>
  Three files under \<open>./pdfs\<close>: one matched by its name only, one by its text only, one
  whose name holds two terms and which cannot be opened. \<open>hit_a\<close>, \<open>hit_b\<close> and
  \<open>hit_c\<close> are the records the search builds for them.
\<close>

definition file_a :: pdf_file where
  "file_a = \<lparr> pdf_name = ''expediente_100.pdf'', pdf_path = ''pdfs/expediente_100.pdf'',
              pdf_relative = ''expediente_100.pdf'', pdf_pages = Some [],
              pdf_stat = Some (1024, 1000) \<rparr>"

definition file_b :: pdf_file where
  "file_b = \<lparr> pdf_name = ''b.pdf'', pdf_path = ''pdfs/b.pdf'',
              pdf_relative = ''b.pdf'',
              pdf_pages = Some [Some ''Sello 55 Caratula Juan Perez''],
              pdf_stat = Some (2048, 2000) \<rparr>"

definition file_c :: pdf_file where
  "file_c = \<lparr> pdf_name = ''100_55.pdf'', pdf_path = ''pdfs/100_55.pdf'',
              pdf_relative = ''100_55.pdf'', pdf_pages = None,
              pdf_stat = Some (512, 3000) \<rparr>"

definition corpus :: "pdf_file list \<Rightarrow> file_system" where
  "corpus files = \<lparr> path_exists = (\<lambda>p. p = ''./pdfs''),
                     rglob = (\<lambda>p. if p = ''./pdfs'' then files else []),
                     glob = (\<lambda>p. if p = ''./pdfs'' then files else []) \<rparr>"

definition capped_config :: config where
  "capped_config = default_config \<lparr> max_results := 1 \<rparr>"

definition negative_config :: config where
  "negative_config = default_config \<lparr> max_results := - 1 \<rparr>"


definition hit_a :: search_result where
  "hit_a = \<lparr> filename = ''expediente_100.pdf'', path = ''pdfs/expediente_100.pdf'',
             relative_path = ''expediente_100.pdf'', matches = {''expediente''},
             filename_matches = [''expediente''], content_matches = [],
             size_bytes = 1024, modified = 1000, relevance_score = 1 \<rparr>"

definition hit_b :: search_result where
  "hit_b = \<lparr> filename = ''b.pdf'', path = ''pdfs/b.pdf'',
             relative_path = ''b.pdf'', matches = {''sello''},
             filename_matches = [], content_matches = [''sello''],
             size_bytes = 2048, modified = 2000, relevance_score = 1 \<rparr>"

definition hit_c :: search_result where
  "hit_c = \<lparr> filename = ''100_55.pdf'', path = ''pdfs/100_55.pdf'',
             relative_path = ''100_55.pdf'', matches = {''expediente'', ''sello''},
             filename_matches = [''expediente'', ''sello''], content_matches = [],
             size_bytes = 512, modified = 3000, relevance_score = 2 \<rparr>"

text \<open>A file whose name holds a term, that cannot be read and whose \<open>stat()\<close> fails.\<close>

definition file_d :: pdf_file where
  "file_d = \<lparr> pdf_name = ''100_locked.pdf'', pdf_path = ''pdfs/100_locked.pdf'',
              pdf_relative = ''100_locked.pdf'', pdf_pages = None, pdf_stat = None \<rparr>"

text \<open>
  A file whose name holds one term and whose text holds another, with the records that
  a match-all and a match-any search build for it.
\<close>

definition file_e :: pdf_file where
  "file_e = \<lparr> pdf_name = ''100.pdf'', pdf_path = ''pdfs/100.pdf'',
              pdf_relative = ''100.pdf'', pdf_pages = Some [Some ''Sello 55''],
              pdf_stat = Some (4096, 4000) \<rparr>"

definition hit_e_all :: search_result where
  "hit_e_all = \<lparr> filename = ''100.pdf'', path = ''pdfs/100.pdf'',
                 relative_path = ''100.pdf'', matches = {''expediente'', ''sello''},
                 filename_matches = [''expediente''], content_matches = [''sello''],
                 size_bytes = 4096, modified = 4000, relevance_score = 2 \<rparr>"

definition hit_e_any :: search_result where
  "hit_e_any = \<lparr> filename = ''100.pdf'', path = ''pdfs/100.pdf'',
                 relative_path = ''100.pdf'', matches = {''expediente''},
                 filename_matches = [''expediente''], content_matches = [],
                 size_bytes = 4096, modified = 4000, relevance_score = 1 \<rparr>"

text \<open>A term with a repeat count above \<open>MAXREPEAT\<close>, and a file whose text holds it.\<close>

definition huge_repeat :: string where
  "huge_repeat = ''a{99999999999}''"

definition file_f :: pdf_file where
  "file_f = \<lparr> pdf_name = ''f.pdf'', pdf_path = ''pdfs/f.pdf'',
              pdf_relative = ''f.pdf'', pdf_pages = Some [Some ''see a{99999999999} here''],
              pdf_stat = Some (100, 5000) \<rparr>"

section \<open>Properties\<close>

subsection \<open>The scan loop\<close>

lemma hits_Nil: "hits cfg rs terms ma [] = []"
  by (simp add: hits_def)

lemma hits_Cons:
  "hits cfg rs terms ma (f # fs) = appended cfg rs terms ma f @ hits cfg rs terms ma fs"
  by (simp add: hits_def)

lemma hits_append:
  "hits cfg rs terms ma (xs @ ys) = hits cfg rs terms ma xs @ hits cfg rs terms ma ys"
  by (simp add: hits_def)

lemma length_appended: "length (appended cfg rs terms ma f) \<le> 1"
  by (simp add: appended_def split: sum.splits option.splits)

lemma scan_Cons_snd:
  "snd (scan cfg rs terms ma (f # files) results) =
     (if max_results cfg \<le> int (length results) then results
      else snd (scan cfg rs terms ma files (results @ appended cfg rs terms ma f)))"
  by (simp add: appended_def split: prod.splits sum.splits option.splits)

lemma scan_results:
  "snd (scan cfg rs terms ma files results) =
     (if max_results cfg \<le> int (length results) then results
      else results @ take (nat (max_results cfg) - length results) (hits cfg rs terms ma files))"
proof (induction files arbitrary: results)
  case Nil
  then show ?case by (simp add: hits_Nil)
next
  case (Cons f files)
  show ?case
  proof (cases "max_results cfg \<le> int (length results)")
    case True
    then show ?thesis by (simp add: scan_Cons_snd del: scan.simps)
  next
    case False
    then have lt: "length results < nat (max_results cfg)" by linarith
    consider (none) "appended cfg rs terms ma f = []"
      | (one) r where "appended cfg rs terms ma f = [r]"
      using length_appended [of cfg rs terms ma f]
      by (cases "appended cfg rs terms ma f") auto
    then show ?thesis
    proof cases
      case none
      with False Cons.IH [of results] show ?thesis
        by (simp add: scan_Cons_snd hits_Cons del: scan.simps)
    next
      case one
      have tk: "take (nat (max_results cfg) - length results) (r # hits cfg rs terms ma files)
                = r # take (nat (max_results cfg) - Suc (length results))
                        (hits cfg rs terms ma files)"
      proof -
        obtain k where k: "nat (max_results cfg) - length results = Suc k"
          using lt by (cases "nat (max_results cfg) - length results") auto
        then have "nat (max_results cfg) - Suc (length results) = k" by linarith
        with k show ?thesis by simp
      qed
      from one False Cons.IH [of "results @ [r]"] tk lt show ?thesis
        by (auto simp add: scan_Cons_snd hits_Cons simp del: scan.simps)
    qed
  qed
qed

lemma length_rank: "length (rank xs) = length xs"
  by (simp add: rank_def)

lemma set_rank: "set (rank xs) = set xs"
  by (simp add: rank_def)

lemma search_results:
  "snd (search_pdfs cfg rs fs expediente sello caratula ma) =
     (if criteria expediente sello caratula = [] then Inr []
      else if \<not> path_exists fs (search_directory cfg) then Inl FileNotFoundError
      else Inr (rank (take (nat (max_results cfg))
                  (hits cfg rs (criteria expediente sello caratula) ma (pdf_files cfg fs)))))"
proof -
  have "snd (scan cfg rs terms ma files [])
          = take (nat (max_results cfg)) (hits cfg rs terms ma files)" for terms files
    by (simp add: scan_results)
  then show ?thesis
    by (simp add: search_pdfs_def pdf_files_def Let_def split: prod.splits) (metis snd_conv)
qed

subsection \<open>Empty criteria\<close>

text \<open>
  C1. Whatever the match-all flag, when the three terms are empty after stripping the
  search answers the empty list and its log of file-system reads is empty: it has not
  asked whether the search directory exists, so it cannot fail with
  \<open>FileNotFoundError\<close>.
\<close>

theorem empty_criteria_no_access:
  assumes "strip expediente = []" and "strip sello = []" and "strip caratula = []"
  shows "search_pdfs cfg rs fs expediente sello caratula match_all = ([], Inr [])"
  using assms by (simp add: search_pdfs_def criteria_def)

theorem empty_criteria_no_access_witness:
  "strip ''  '' = [] \<and> strip [] = [] \<and> strip [CHR 0x09, newline] = []
   \<and> search_pdfs default_config (re_search unreached) missing_root ''  '' [] [CHR 0x09, newline] True
       = ([], Inr [])"
proof -
  have a: "strip ''  '' = []" by code_simp
  have b: "strip [] = []" by code_simp
  have c: "strip [CHR 0x09, newline] = []" by code_simp
  show ?thesis using a b c empty_criteria_no_access [OF a b c] by simp
qed

subsection \<open>A missing search directory\<close>

text \<open>
  C5. When at least one term is left after stripping and the configured search directory
  does not exist, the search fails with \<open>FileNotFoundError\<close>, whatever the match-all
  flag: it returns no results, and the only file-system read is the one test of the
  directory, so nothing is retried.
\<close>

theorem missing_root_fails:
  assumes "criteria expediente sello caratula \<noteq> []"
    and "\<not> path_exists fs (search_directory cfg)"
  shows "search_pdfs cfg rs fs expediente sello caratula match_all
           = ([Exists (search_directory cfg)], Inl FileNotFoundError)"
  using assms by (simp add: search_pdfs_def)

theorem missing_root_fails_witness:
  "criteria ''100'' [] [] \<noteq> []
   \<and> \<not> path_exists missing_root (search_directory default_config)
   \<and> search_pdfs default_config (re_search unreached) missing_root ''100'' [] [] False
       = ([Exists ''./pdfs''], Inl FileNotFoundError)"
proof -
  have a: "criteria ''100'' [] [] \<noteq> []" by code_simp
  have b: "\<not> path_exists missing_root (search_directory default_config)"
    by (simp add: missing_root_def)
  show ?thesis using a b missing_root_fails [OF a b, of "re_search unreached" False]
    by (simp add: default_config_def)
qed

subsection \<open>Searches of the sample corpora, evaluated\<close>

lemma search_a_b_any:
  "search_pdfs default_config (re_search beyond) (corpus [file_a, file_b]) ''100'' ''55'' [] False
     = ([Exists ''./pdfs'', Rglob ''./pdfs'', Stat ''pdfs/expediente_100.pdf'',
         Stat ''pdfs/expediente_100.pdf'', Open ''pdfs/b.pdf'', Stat ''pdfs/b.pdf'',
         Stat ''pdfs/b.pdf''],
        Inr [hit_b, hit_a])"
  by code_simp

lemma search_a_c_any:
  "search_pdfs default_config (re_search beyond) (corpus [file_a, file_c]) ''100'' ''55'' [] False
     = ([Exists ''./pdfs'', Rglob ''./pdfs'', Stat ''pdfs/expediente_100.pdf'',
         Stat ''pdfs/expediente_100.pdf'', Stat ''pdfs/100_55.pdf'',
         Stat ''pdfs/100_55.pdf''],
        Inr [hit_c, hit_a])"
  by code_simp

lemma capped_a_c_any:
  "search_pdfs capped_config (re_search beyond) (corpus [file_a, file_c]) ''100'' ''55'' [] False
     = ([Exists ''./pdfs'', Rglob ''./pdfs'', Stat ''pdfs/expediente_100.pdf'',
         Stat ''pdfs/expediente_100.pdf''],
        Inr [hit_a])"
  by code_simp

lemma capped_a_c_all:
  "search_pdfs capped_config (re_search beyond) (corpus [file_a, file_c]) ''100'' ''55'' [] True
     = ([Exists ''./pdfs'', Rglob ''./pdfs'', Open ''pdfs/expediente_100.pdf'',
         Open ''pdfs/100_55.pdf'', Stat ''pdfs/100_55.pdf'', Stat ''pdfs/100_55.pdf''],
        Inr [hit_c])"
  by code_simp

lemma negative_a_c_all:
  "search_pdfs negative_config (re_search beyond) (corpus [file_a, file_c]) ''100'' ''55'' [] True
     = ([Exists ''./pdfs'', Rglob ''./pdfs''], Inr [])"
  by code_simp

subsection \<open>The result cap\<close>

text \<open>
  C2, as stated, fails for a negative cap: \<open>getint\<close> accepts \<open>max_results = -1\<close>, the
  loop then stops before the first file and the search answers the empty list, whose
  length 0 is above the cap.
\<close>

theorem negative_cap_counterexample:
  "snd (search_pdfs negative_config (re_search unreached) (corpus [file_a, file_c]) ''100'' ''55'' [] True)
     = Inr []
   \<and> \<not> int (length ([] :: search_result list)) \<le> max_results negative_config"
proof
  show "snd (search_pdfs negative_config (re_search unreached) (corpus [file_a, file_c]) ''100'' ''55'' [] True)
          = Inr []"
    by (simp add: negative_a_c_all)
  show "\<not> int (length ([] :: search_result list)) \<le> max_results negative_config"
    by (simp add: negative_config_def default_config_def)
qed

text \<open>
  C2, amended. For every configuration whose cap is not negative, every corpus, criteria
  and match-all flag, a search that returns a list returns at most \<open>max_results\<close>
  records. Once the accumulated results have reached the cap the loop ends without
  reading another file and hands the accumulated list back, and whenever the search
  directory exists the search answers a list, never an error.
\<close>

theorem result_cap:
  assumes "0 \<le> max_results cfg"
  shows "(snd (search_pdfs cfg rs fs expediente sello caratula match_all) = Inr results
            \<longrightarrow> int (length results) \<le> max_results cfg)
       \<and> (max_results cfg \<le> int (length acc)
            \<longrightarrow> scan cfg rs terms match_all files acc = ([], acc))
       \<and> (path_exists fs (search_directory cfg)
            \<longrightarrow> (\<exists>found. snd (search_pdfs cfg rs fs expediente sello caratula match_all) = Inr found))"
proof (intro conjI impI)
  assume "snd (search_pdfs cfg rs fs expediente sello caratula match_all) = Inr results"
  with assms show "int (length results) \<le> max_results cfg"
    by (auto simp: search_results length_rank split: if_splits)
next
  assume "max_results cfg \<le> int (length acc)"
  then show "scan cfg rs terms match_all files acc = ([], acc)"
    by (cases files) simp_all
next
  assume "path_exists fs (search_directory cfg)"
  then show "\<exists>found. snd (search_pdfs cfg rs fs expediente sello caratula match_all) = Inr found"
    by (simp add: search_results)
qed

theorem result_cap_witness:
  "0 \<le> max_results capped_config
   \<and> snd (search_pdfs capped_config (re_search unreached) (corpus [file_a, file_c]) ''100'' ''55'' [] False)
       = Inr [hit_a]
   \<and> int (length [hit_a]) \<le> max_results capped_config
   \<and> max_results capped_config \<le> int (length [hit_a])
   \<and> scan capped_config (re_search unreached) [(''expediente'', ''100''), (''sello'', ''55'')] False
         [file_c] [hit_a] = ([], [hit_a])
   \<and> path_exists (corpus [file_a, file_c]) (search_directory capped_config)"
proof -
  have a: "0 \<le> max_results capped_config"
    by (simp add: capped_config_def default_config_def)
  have b: "path_exists (corpus [file_a, file_c]) (search_directory capped_config)"
    by (simp add: corpus_def capped_config_def default_config_def)
  have c: "max_results capped_config \<le> int (length [hit_a])"
    by (simp add: capped_config_def default_config_def)
  show ?thesis
    using a b c capped_a_c_any
      result_cap [OF a, of "re_search unreached" "corpus [file_a, file_c]" "''100''" "''55''" "[]" False
        "[hit_a]" "[hit_a]" "[(''expediente'', ''100''), (''sello'', ''55'')]" "[file_c]"]
    by simp
qed

subsection \<open>Ranking\<close>

lemma rank_sorted: "sorted_wrt (\<lambda>a b. sort_key_of b \<le> sort_key_of a) (rank xs)"
proof -
  have "sorted (map sort_key_of (sort_key sort_key_of (rev xs)))"
    by (rule sorted_sort_key)
  then have "sorted_wrt (\<lambda>a b. sort_key_of a \<le> sort_key_of b) (sort_key sort_key_of (rev xs))"
    by (simp add: sorted_wrt_map)
  then show ?thesis
    by (simp add: rank_def sorted_wrt_rev)
qed

text \<open>
  C3. In the list a search returns, a result that stands before another one has a
  greater relevance score, or the same score and a modification time that is not
  earlier.
\<close>

theorem ranking_order:
  assumes "snd (search_pdfs cfg rs fs expediente sello caratula match_all) = Inr out"
    and "i < j" and "j < length out"
  shows "relevance_score (out ! i) > relevance_score (out ! j)
         \<or> (relevance_score (out ! i) = relevance_score (out ! j)
             \<and> modified (out ! i) \<ge> modified (out ! j))"
proof -
  have "\<exists>xs. out = rank xs"
  proof (cases "criteria expediente sello caratula = []")
    case True
    with assms(1) have "out = rank []" by (simp add: search_results rank_def)
    then show ?thesis ..
  next
    case False
    with assms(1) show ?thesis
      by (auto simp: search_results split: if_splits)
  qed
  then obtain xs where "out = rank xs" ..
  then have "sorted_wrt (\<lambda>a b. sort_key_of b \<le> sort_key_of a) out"
    by (simp add: rank_sorted)
  with assms(2,3) have "sort_key_of (out ! j) \<le> sort_key_of (out ! i)"
    by (simp add: sorted_wrt_iff_nth_less)
  then show ?thesis
    by (auto simp: sort_key_of_def less_eq_prod_def)
qed

theorem ranking_order_witness:
  "snd (search_pdfs default_config (re_search unreached) (corpus [file_a, file_b]) ''100'' ''55'' [] False)
     = Inr [hit_b, hit_a]
   \<and> (0::nat) < 1 \<and> 1 < length [hit_b, hit_a]
   \<and> relevance_score ([hit_b, hit_a] ! 0) = relevance_score ([hit_b, hit_a] ! 1)
   \<and> modified ([hit_b, hit_a] ! 0) \<ge> modified ([hit_b, hit_a] ! 1)"
proof -
  have a: "snd (search_pdfs default_config (re_search unreached) (corpus [file_a, file_b]) ''100'' ''55'' [] False)
             = Inr [hit_b, hit_a]"
    by (simp add: search_a_b_any)
  have b: "(0::nat) < 1" by simp
  have c: "1 < length [hit_b, hit_a]" by simp
  show ?thesis using a b c ranking_order [OF a b c]
    by (simp add: hit_a_def hit_b_def)
qed

subsection \<open>Match-all against match-any\<close>

lemma appended_all_any:
  assumes "terms \<noteq> []" and "appended cfg rs terms True f = [r]"
  shows "\<exists>r'. appended cfg rs terms False f = [r'] \<and> path r' = path r"
proof -
  let ?fm = "search_in_filename cfg (pdf_name f) terms"
  from assms(2) obtain cm sz mtime
    where cm: "search_in_content cfg rs (extract_text_from_pdf cfg f) terms = Inr cm"
      and st: "pdf_stat f = Some (sz, mtime)"
      and sub: "set (map fst terms) \<subseteq> set (?fm @ cm)" and p: "path r = pdf_path f"
    by (auto simp: appended_def process_file_def Let_def
          split: if_splits option.splits sum.splits)
  from assms(1) sub have ne: "?fm @ cm \<noteq> []"
    by (cases terms) auto
  show ?thesis
  proof (cases "?fm = []")
    case True
    with ne have "0 < card (set cm)"
      by (simp add: card_gt_0_iff)
    with True cm st p show ?thesis
      by (simp add: appended_def process_file_def Let_def)
  next
    case False
    then have "0 < card (set ?fm)"
      by (simp add: card_gt_0_iff)
    with False st p show ?thesis
      by (simp add: appended_def process_file_def Let_def)
  qed
qed

lemma in_hits:
  "r \<in> set (hits cfg rs terms ma files) \<longleftrightarrow> (\<exists>f\<in>set files. r \<in> set (appended cfg rs terms ma f))"
  by (simp add: hits_def)

lemma hits_all_any:
  assumes "terms \<noteq> []"
  shows "path ` set (hits cfg rs terms True files) \<subseteq> path ` set (hits cfg rs terms False files)"
proof
  fix p assume "p \<in> path ` set (hits cfg rs terms True files)"
  then obtain r where "r \<in> set (hits cfg rs terms True files)" and p: "p = path r"
    by blast
  then obtain f where f: "f \<in> set files" and r: "r \<in> set (appended cfg rs terms True f)"
    unfolding in_hits by blast
  from r length_appended [of cfg rs terms True f] have "appended cfg rs terms True f = [r]"
    by (cases "appended cfg rs terms True f") auto
  with assms obtain r' where r': "appended cfg rs terms False f = [r']" and pr: "path r' = path r"
    using appended_all_any by blast
  from r' f have "r' \<in> set (hits cfg rs terms False files)"
    unfolding in_hits by (intro bexI [where x = f]) simp_all
  with pr p show "p \<in> path ` set (hits cfg rs terms False files)"
    by (metis imageI)
qed

text \<open>
  C4, as stated, fails when the cap cuts the match-any scan: with a cap of one, the
  match-any search stops at the first file, which holds one term, while the match-all
  search passes it over and returns the second file, which holds both.
\<close>

theorem capped_subset_counterexample:
  "\<not> returned_paths
       (snd (search_pdfs capped_config (re_search unreached) (corpus [file_a, file_c]) ''100'' ''55'' [] True))
     \<subseteq> returned_paths
       (snd (search_pdfs capped_config (re_search unreached) (corpus [file_a, file_c]) ''100'' ''55'' [] False))"
  by (simp add: capped_a_c_any capped_a_c_all returned_paths_def hit_a_def hit_c_def)

text \<open>
  C4, amended. For every corpus and criteria, when the match-any search returns fewer
  records than the cap (its scan was not cut), every file returned by the match-all
  search is among the files returned by the match-any search.
\<close>

theorem all_subset_any:
  assumes "snd (search_pdfs cfg rs fs expediente sello caratula False) = Inr any_results"
    and "int (length any_results) < max_results cfg"
  shows "returned_paths (snd (search_pdfs cfg rs fs expediente sello caratula True))
         \<subseteq> returned_paths (snd (search_pdfs cfg rs fs expediente sello caratula False))"
proof (cases "criteria expediente sello caratula = []")
  case True
  then show ?thesis by (simp add: search_results returned_paths_def)
next
  case False
  let ?terms = "criteria expediente sello caratula"
  let ?n = "nat (max_results cfg)"
  let ?any = "hits cfg rs ?terms False (pdf_files cfg fs)"
  let ?all = "hits cfg rs ?terms True (pdf_files cfg fs)"
  from False assms(1) have ex: "path_exists fs (search_directory cfg)"
    and any: "any_results = rank (take ?n ?any)"
    by (auto simp: search_results split: if_splits)
  from any assms(2) have "length (take ?n ?any) < ?n"
    by (simp add: length_rank)
  then have full: "take ?n ?any = ?any" by simp
  have "path ` set (take ?n ?all) \<subseteq> path ` set ?all"
    by (meson image_mono set_take_subset)
  also have "\<dots> \<subseteq> path ` set ?any"
    using False by (rule hits_all_any)
  finally show ?thesis
    using False ex full by (simp add: search_results returned_paths_def set_rank)
qed

theorem all_subset_any_witness:
  "snd (search_pdfs default_config (re_search unreached) (corpus [file_a, file_c]) ''100'' ''55'' [] False)
     = Inr [hit_c, hit_a]
   \<and> int (length [hit_c, hit_a]) < max_results default_config
   \<and> returned_paths
       (snd (search_pdfs default_config (re_search unreached) (corpus [file_a, file_c]) ''100'' ''55'' [] True))
     \<subseteq> returned_paths
       (snd (search_pdfs default_config (re_search unreached) (corpus [file_a, file_c]) ''100'' ''55'' [] False))"
proof -
  have a: "snd (search_pdfs default_config (re_search unreached) (corpus [file_a, file_c]) ''100'' ''55'' [] False)
             = Inr [hit_c, hit_a]"
    by (simp add: search_a_c_any)
  have b: "int (length [hit_c, hit_a]) < max_results default_config"
    by (simp add: default_config_def)
  show ?thesis using a b all_subset_any [OF a b] by simp
qed

subsection \<open>The two matchers\<close>

lemma match_here_Opt:
  "match_here ic r s \<Longrightarrow> match_here ic ((a, Opt) # r) s"
  by (cases s) auto

lemma match_here_Star:
  "match_here ic r s \<Longrightarrow> match_here ic ((a, Star) # r) s"
  by (cases s) auto

lemma match_here_append:
  "match_here ic items s \<Longrightarrow> match_here ic items (s @ post)"
  by (induction ic items s rule: match_here.induct)
     (auto simp: match_here_Opt match_here_Star)

lemma match_anywhere_start:
  "match_here ic items s \<Longrightarrow> match_anywhere ic items s"
  by (cases s) auto

lemma match_anywhere_prefix:
  "match_here ic items s \<Longrightarrow> match_anywhere ic items (pre @ s)"
  by (induction pre) (auto simp: match_anywhere_start)

lemma match_anywhere_inside:
  "match_here ic items s \<Longrightarrow> match_anywhere ic items (pre @ s @ post)"
  by (simp add: match_anywhere_prefix match_here_append)

lemma match_literals:
  "match_here ic (map (\<lambda>c. (Lit c, One)) t) t"
  by (induction t) auto

text \<open>An engine that answers every pattern of the list without raising.\<close>

lemma try_patterns_quiet:
  assumes "\<forall>p\<in>set ps. rs ic p content \<in> {Matched, NoMatch, PatternError}"
  shows "try_patterns rs ic ps content = Inr (\<exists>p\<in>set ps. rs ic p content = Matched)"
  using assms
proof (induction ps)
  case Nil
  then show ?case by simp
next
  case (Cons p ps)
  then show ?case
    by (cases "rs ic p content") auto
qed

lemma try_patterns_third:
  assumes "rs ic p1 content \<in> {Matched, NoMatch, PatternError}"
    and "rs ic p2 content \<in> {Matched, NoMatch, PatternError}"
    and "rs ic p3 content = Matched"
  shows "try_patterns rs ic (p1 # p2 # p3 # ps) content = Inr True"
  using assms
  by (cases "rs ic p1 content"; cases "rs ic p2 content") auto

lemma search_in_filename_filter:
  "search_in_filename cfg fname terms =
     map fst (filter (\<lambda>(k, v). v \<noteq> []
                \<and> sublist (if \<not> case_sensitive cfg then lower v else v)
                     (if \<not> case_sensitive cfg then lower fname else fname)) terms)"
  by (induction cfg fname terms rule: search_in_filename.induct) (simp_all add: Let_def)

lemma lower_char_idem: "lower_char (lower_char c) = lower_char c"
  by (auto simp: lower_char_def Let_def)

lemma lower_char_code:
  "lower_char c = c \<or> (97 \<le> (of_char (lower_char c) :: nat) \<and> (of_char (lower_char c) :: nat) \<le> 122)
     \<or> (224 \<le> (of_char (lower_char c) :: nat) \<and> (of_char (lower_char c) :: nat) \<le> 254)"
  by (auto simp: lower_char_def Let_def)

lemma metachar_code:
  "x \<in> set metachars \<Longrightarrow> (of_char x :: nat) \<in> {36, 40, 41, 42, 43, 46, 63, 91, 92, 93, 94, 123, 124, 125}"
  by (auto simp: metachars_def backslash_def)

lemma plain_lower: "plain c \<Longrightarrow> plain (lower_char c)"
  using lower_char_code [of c] metachar_code [of "lower_char c"]
  by (auto simp: plain_def)

lemma lower_char_hyphen: "lower_char c = CHR ''-'' \<longleftrightarrow> c = CHR ''-''"
proof
  assume h: "lower_char c = CHR ''-''"
  then have "(of_char (lower_char c) :: nat) = 45" by simp
  with lower_char_code [of c] h show "c = CHR ''-''" by auto
next
  assume "c = CHR ''-''"
  then show "lower_char c = CHR ''-''" by (simp add: lower_char_def)
qed

lemma parse_plain_char:
  "plain c \<Longrightarrow> parse_re Normal acc (c # cs) = parse_re Normal ((Lit c, One) # acc) cs"
  by (auto simp: plain_def metachars_def)

lemma parse_plain:
  "\<forall>c\<in>set t. plain c \<Longrightarrow>
     parse_re Normal acc t = Parsed (rev acc @ map (\<lambda>c. (Lit c, One)) t)"
proof (induction t arbitrary: acc)
  case Nil
  then show ?case by simp
next
  case (Cons c t)
  then have "plain c" and rest: "\<forall>c\<in>set t. plain c" by simp_all
  then have "parse_re Normal acc (c # t) = parse_re Normal ((Lit c, One) # acc) t"
    by (simp only: parse_plain_char)
  also have "\<dots> = Parsed (rev ((Lit c, One) # acc) @ map (\<lambda>c. (Lit c, One)) t)"
    using rest by (rule Cons.IH)
  finally show ?case by simp
qed

lemma special_not_alnum:
  "c \<in> set special_chars \<Longrightarrow> c \<noteq> CHR ''s'' \<and> \<not> ascii_alnum c"
  by (auto simp: special_chars_def ascii_alnum_def backslash_def)

lemma parse_escaped:
  "\<forall>c\<in>set t. plain c \<Longrightarrow>
     parse_re Normal acc (re_escape t) = Parsed (rev acc @ map (\<lambda>c. (Lit c, One)) t)"
proof (induction t arbitrary: acc)
  case Nil
  then show ?case by (simp add: re_escape_def)
next
  case (Cons c t)
  then have IH: "\<And>acc. parse_re Normal acc (re_escape t)
                    = Parsed (rev acc @ map (\<lambda>c. (Lit c, One)) t)"
    by simp
  have split: "re_escape (c # t)
      = (if c \<in> set special_chars then [backslash, c] else [c]) @ re_escape t"
    by (simp add: re_escape_def)
  show ?case
  proof (cases "c \<in> set special_chars")
    case True
    with special_not_alnum [of c]
    have "parse_re Normal acc (re_escape (c # t))
            = parse_re Normal ((Lit c, One) # acc) (re_escape t)"
      by (simp add: split)
    with IH show ?thesis by simp
  next
    case False
    from Cons.prems have "plain c" by simp
    with False have "parse_re Normal acc (re_escape (c # t))
            = parse_re Normal ((Lit c, One) # acc) (re_escape t)"
      by (simp only: split if_False append_Cons append_Nil parse_plain_char)
    with IH show ?thesis by simp
  qed
qed

lemma parse_hyphen_variant:
  "\<forall>c\<in>set t. plain c \<Longrightarrow>
     parse_re Normal acc (replace CHR ''-'' (''[-'' @ [backslash] @ ''s]?'') t)
       = Parsed (rev acc @ hyphen_items t)"
proof (induction t arbitrary: acc)
  case Nil
  then show ?case by (simp add: replace_def hyphen_items_def)
next
  case (Cons c t)
  then have IH: "\<And>acc. parse_re Normal acc (replace CHR ''-'' (''[-'' @ [backslash] @ ''s]?'') t)
                    = Parsed (rev acc @ hyphen_items t)"
    by simp
  show ?case
  proof (cases "c = CHR ''-''")
    case True
    have "parse_re Normal acc (replace CHR ''-'' (''[-'' @ [backslash] @ ''s]?'') (c # t))
            = parse_re Normal ((Class [CLit CHR ''-'', CSpace], Opt) # acc)
                (replace CHR ''-'' (''[-'' @ [backslash] @ ''s]?'') t)"
      using True by (simp add: replace_def backslash_def quant_of_def)
    with True IH show ?thesis by (simp add: hyphen_items_def)
  next
    case False
    from Cons.prems have "plain c" by simp
    moreover have "replace CHR ''-'' (''[-'' @ [backslash] @ ''s]?'') (c # t)
            = c # replace CHR ''-'' (''[-'' @ [backslash] @ ''s]?'') t"
      using False by (simp add: replace_def)
    ultimately
    have "parse_re Normal acc (replace CHR ''-'' (''[-'' @ [backslash] @ ''s]?'') (c # t))
            = parse_re Normal ((Lit c, One) # acc)
                (replace CHR ''-'' (''[-'' @ [backslash] @ ''s]?'') t)"
      by (simp only: parse_plain_char)
    with False IH show ?thesis by (simp add: hyphen_items_def)
  qed
qed

lemma match_hyphen_items:
  "map (if ic then lower_char else id) w = map (if ic then lower_char else id) (without_hyphens t)
     \<Longrightarrow> match_here ic (hyphen_items t) w"
proof (induction t arbitrary: w)
  case Nil
  then show ?case by (simp add: hyphen_items_def)
next
  case (Cons c t)
  show ?case
  proof (cases "c = CHR ''-''")
    case True
    with Cons.prems have "match_here ic (hyphen_items t) w"
      by (intro Cons.IH) (simp add: without_hyphens_def)
    then have "match_here ic ((Class [CLit CHR ''-'', CSpace], Opt) # hyphen_items t) w"
      by (rule match_here_Opt)
    with True show ?thesis by (simp add: hyphen_items_def)
  next
    case False
    with Cons.prems obtain d w' where w: "w = d # w'"
      and d: "(if ic then lower_char else id) d = (if ic then lower_char else id) c"
      and w': "map (if ic then lower_char else id) w'
                 = map (if ic then lower_char else id) (without_hyphens t)"
      by (cases w) (auto simp: without_hyphens_def)
    from w' have "match_here ic (hyphen_items t) w'" by (rule Cons.IH)
    with False w d show ?thesis
      by (auto simp: hyphen_items_def split: if_splits)
  qed
qed

text \<open>
  On a term without metacharacters the first two variants are inside the fragment: the
  engine answers them, whatever it does beyond.
\<close>

lemma plain_variants_answered:
  assumes "\<forall>c\<in>set t. plain c"
  shows "re_search beyond ic t content \<in> {Matched, NoMatch, PatternError}"
    and "re_search beyond ic (re_escape t) content \<in> {Matched, NoMatch, PatternError}"
  using parse_plain [OF assms, of "[]"] parse_escaped [OF assms, of "[]"]
  by (simp_all add: re_search_def)

subsection \<open>When the text is extracted\<close>

text \<open>
  C6. For every file the loop processes, the file is opened for text extraction exactly
  when no term was found in its name or match-all is requested. In that case the
  content matches of the record built are what the content matcher finds in the
  extracted text, so with match-all the text is extracted and matched even when the
  name matched; otherwise they are empty: in match-any mode a file whose name matched
  has no content matches.
\<close>

theorem extraction_policy:
  "(Open (pdf_path pdf) \<in> set (fst (process_file cfg rs terms match_all pdf))
      \<longleftrightarrow> search_in_filename cfg (pdf_name pdf) terms = [] \<or> match_all)
   \<and> (snd (process_file cfg rs terms match_all pdf) = Inr (Some r) \<longrightarrow>
        filename_matches r = search_in_filename cfg (pdf_name pdf) terms
        \<and> matches r = set (filename_matches r @ content_matches r)
        \<and> (if search_in_filename cfg (pdf_name pdf) terms = [] \<or> match_all
            then search_in_content cfg rs (extract_text_from_pdf cfg pdf) terms
                   = Inr (content_matches r)
            else content_matches r = []))"
proof (intro conjI impI)
  show "Open (pdf_path pdf) \<in> set (fst (process_file cfg rs terms match_all pdf))
          \<longleftrightarrow> search_in_filename cfg (pdf_name pdf) terms = [] \<or> match_all"
    by (simp add: process_file_def Let_def split: option.splits sum.splits)
next
  assume "snd (process_file cfg rs terms match_all pdf) = Inr (Some r)"
  then have r: "filename_matches r = search_in_filename cfg (pdf_name pdf) terms"
    "matches r = set (filename_matches r @ content_matches r)"
    "if search_in_filename cfg (pdf_name pdf) terms = [] \<or> match_all
     then search_in_content cfg rs (extract_text_from_pdf cfg pdf) terms
            = Inr (content_matches r)
     else content_matches r = []"
    by (auto simp: process_file_def Let_def split: if_splits option.splits sum.splits)
  from r(1) show "filename_matches r = search_in_filename cfg (pdf_name pdf) terms" .
  from r(2) show "matches r = set (filename_matches r @ content_matches r)" .
  from r(3) show "if search_in_filename cfg (pdf_name pdf) terms = [] \<or> match_all
     then search_in_content cfg rs (extract_text_from_pdf cfg pdf) terms
            = Inr (content_matches r)
     else content_matches r = []" .
qed

lemma process_e_all:
  "process_file default_config (re_search beyond)
     [(''expediente'', ''100''), (''sello'', ''55'')] True file_e
     = ([Open ''pdfs/100.pdf'', Stat ''pdfs/100.pdf'', Stat ''pdfs/100.pdf''],
        Inr (Some hit_e_all))"
  by code_simp

lemma process_e_any:
  "process_file default_config (re_search beyond)
     [(''expediente'', ''100''), (''sello'', ''55'')] False file_e
     = ([Stat ''pdfs/100.pdf'', Stat ''pdfs/100.pdf''], Inr (Some hit_e_any))"
  by code_simp

lemma extract_e: "extract_text_from_pdf default_config file_e = ''sello 55'' @ [newline]"
  by code_simp

lemma filename_e:
  "search_in_filename default_config (pdf_name file_e)
     [(''expediente'', ''100''), (''sello'', ''55'')] = [''expediente'']"
  by code_simp

theorem extraction_policy_witness:
  "search_in_filename default_config (pdf_name file_e)
       [(''expediente'', ''100''), (''sello'', ''55'')] = [''expediente'']
   \<and> extract_text_from_pdf default_config file_e = ''sello 55'' @ [newline]
   \<and> snd (process_file default_config (re_search unreached)
            [(''expediente'', ''100''), (''sello'', ''55'')] True file_e) = Inr (Some hit_e_all)
   \<and> Open (pdf_path file_e) \<in> set (fst (process_file default_config (re_search unreached)
         [(''expediente'', ''100''), (''sello'', ''55'')] True file_e))
   \<and> search_in_content default_config (re_search unreached)
         (extract_text_from_pdf default_config file_e)
         [(''expediente'', ''100''), (''sello'', ''55'')] = Inr (content_matches hit_e_all)
   \<and> content_matches hit_e_all = [''sello'']
   \<and> matches hit_e_all = {''expediente'', ''sello''}
   \<and> snd (process_file default_config (re_search unreached)
            [(''expediente'', ''100''), (''sello'', ''55'')] False file_e) = Inr (Some hit_e_any)
   \<and> Open (pdf_path file_e) \<notin> set (fst (process_file default_config (re_search unreached)
         [(''expediente'', ''100''), (''sello'', ''55'')] False file_e))
   \<and> content_matches hit_e_any = []"
proof -
  let ?terms = "[(''expediente'', ''100''), (''sello'', ''55'')]"
  have fm: "search_in_filename default_config (pdf_name file_e) ?terms = [''expediente'']"
    by (rule filename_e)
  have ex: "extract_text_from_pdf default_config file_e = ''sello 55'' @ [newline]"
    by (rule extract_e)
  have a: "snd (process_file default_config (re_search unreached) ?terms True file_e)
             = Inr (Some hit_e_all)"
    by (simp add: process_e_all)
  have b: "snd (process_file default_config (re_search unreached) ?terms False file_e)
             = Inr (Some hit_e_any)"
    by (simp add: process_e_any)
  note all = extraction_policy [where pdf = file_e and cfg = default_config
      and rs = "re_search unreached" and terms = ?terms and match_all = True
      and r = hit_e_all]
  note any = extraction_policy [where pdf = file_e and cfg = default_config
      and rs = "re_search unreached" and terms = ?terms and match_all = False
      and r = hit_e_any]
  from all a have o1: "Open (pdf_path file_e) \<in> set (fst (process_file default_config
      (re_search unreached) ?terms True file_e))"
    by simp
  from all a have c1: "search_in_content default_config (re_search unreached)
         (extract_text_from_pdf default_config file_e) ?terms = Inr (content_matches hit_e_all)"
    by simp
  from any b fm have o2: "Open (pdf_path file_e) \<notin> set (fst (process_file default_config
      (re_search unreached) ?terms False file_e))"
    by simp
  from any b fm have c2: "content_matches hit_e_any = []"
    by simp
  have c3: "content_matches hit_e_all = [''sello'']" by (simp add: hit_e_all_def)
  have m: "matches hit_e_all = {''expediente'', ''sello''}" by (simp add: hit_e_all_def)
  from fm ex a o1 c1 c3 m b o2 c2 show ?thesis by (intro conjI)
qed

subsection \<open>Filenames are matched by containment\<close>

lemma content_123_456_pdf:
  "search_in_content default_config (re_search beyond) ''123 456.pdf''
     [(''expediente'', ''123-456'')] = Inr [''expediente'']"
  by code_simp

text \<open>
  C7, as stated, fails: \<open>search_in_filename\<close> tries no pattern variants. For the term
  \<open>123-456\<close> the name \<open>123 456.pdf\<close> is no filename match, while the same text as
  content is a content match.
\<close>

theorem filename_hyphen_counterexample:
  "search_in_filename default_config ''123 456.pdf'' [(''expediente'', ''123-456'')] = []
   \<and> search_in_content default_config (re_search unreached) ''123 456.pdf''
        [(''expediente'', ''123-456'')] = Inr [''expediente'']"
proof
  show "search_in_filename default_config ''123 456.pdf'' [(''expediente'', ''123-456'')] = []"
    by code_simp
  show "search_in_content default_config (re_search unreached) ''123 456.pdf''
        [(''expediente'', ''123-456'')] = Inr [''expediente'']"
    by (rule content_123_456_pdf)
qed

text \<open>
  C7, amended. The filename matcher records, in the order of the criteria, exactly the
  fields whose term is not empty and occurs in the filename as a contiguous substring,
  both lower-cased unless the search is case-sensitive. The pattern variants are the
  content matcher's.
\<close>

theorem filename_substring:
  "search_in_filename cfg fname terms =
     map fst (filter (\<lambda>(k, v). v \<noteq> []
                \<and> sublist (if \<not> case_sensitive cfg then lower v else v)
                     (if \<not> case_sensitive cfg then lower fname else fname)) terms)
   \<and> (k \<in> set (search_in_filename cfg fname terms) \<longleftrightarrow>
        (\<exists>v. (k, v) \<in> set terms \<and> v \<noteq> []
           \<and> sublist (if \<not> case_sensitive cfg then lower v else v)
                (if \<not> case_sensitive cfg then lower fname else fname)))"
proof
  show "search_in_filename cfg fname terms =
     map fst (filter (\<lambda>(k, v). v \<noteq> []
                \<and> sublist (if \<not> case_sensitive cfg then lower v else v)
                     (if \<not> case_sensitive cfg then lower fname else fname)) terms)"
    by (rule search_in_filename_filter)
  show "k \<in> set (search_in_filename cfg fname terms) \<longleftrightarrow>
        (\<exists>v. (k, v) \<in> set terms \<and> v \<noteq> []
           \<and> sublist (if \<not> case_sensitive cfg then lower v else v)
                (if \<not> case_sensitive cfg then lower fname else fname))"
    by (induction cfg fname terms rule: search_in_filename.induct) (auto simp: Let_def)
qed

theorem filename_substring_witness:
  "search_in_filename default_config ''Expediente_123-456.PDF''
       [(''expediente'', ''123-456''), (''sello'', ''55''), (''caratula'', ''PDF'')]
     = map fst (filter (\<lambda>(k, v). v \<noteq> []
                \<and> sublist (if \<not> case_sensitive default_config then lower v else v)
                     (if \<not> case_sensitive default_config
                      then lower ''Expediente_123-456.PDF'' else ''Expediente_123-456.PDF''))
         [(''expediente'', ''123-456''), (''sello'', ''55''), (''caratula'', ''PDF'')])
   \<and> search_in_filename default_config ''Expediente_123-456.PDF''
       [(''expediente'', ''123-456''), (''sello'', ''55''), (''caratula'', ''PDF'')]
     = [''expediente'', ''caratula'']"
proof (rule conjI)
  show "search_in_filename default_config ''Expediente_123-456.PDF''
       [(''expediente'', ''123-456''), (''sello'', ''55''), (''caratula'', ''PDF'')]
     = map fst (filter (\<lambda>(k, v). v \<noteq> []
                \<and> sublist (if \<not> case_sensitive default_config then lower v else v)
                     (if \<not> case_sensitive default_config
                      then lower ''Expediente_123-456.PDF'' else ''Expediente_123-456.PDF''))
         [(''expediente'', ''123-456''), (''sello'', ''55''), (''caratula'', ''PDF'')])"
    by (rule filename_substring [THEN conjunct1])
  show "search_in_filename default_config ''Expediente_123-456.PDF''
       [(''expediente'', ''123-456''), (''sello'', ''55''), (''caratula'', ''PDF'')]
     = [''expediente'', ''caratula'']"
    by code_simp
qed

subsection \<open>Failures on one file\<close>

lemma read_pages_None: "None \<in> set pages \<Longrightarrow> read_pages pages = None"
  by (induction pages rule: read_pages.induct) auto

lemma extract_failure:
  assumes "pdf_pages pdf = None \<or> (\<exists>pages. pdf_pages pdf = Some pages \<and> None \<in> set (take 5 pages))"
  shows "extract_text_from_pdf cfg pdf = []"
  using assms
proof
  assume "pdf_pages pdf = None"
  then show ?thesis by (simp add: extract_text_from_pdf_def)
next
  assume "\<exists>pages. pdf_pages pdf = Some pages \<and> None \<in> set (take 5 pages)"
  then obtain pages where p: "pdf_pages pdf = Some pages" and n: "None \<in> set (take 5 pages)"
    by blast
  have "take (min (length pages) 5) pages = take 5 pages"
    by (simp add: min_def)
  with n have "read_pages (take (min (length pages) 5) pages) = None"
    by (simp add: read_pages_None)
  with p show ?thesis by (simp add: extract_text_from_pdf_def)
qed

lemma extract_empty_document:
  "extract_text_from_pdf cfg (pdf \<lparr> pdf_pages := Some [] \<rparr>) = []"
  by (simp add: extract_text_from_pdf_def lower_def)

lemma appended_raised:
  "snd (process_file cfg rs terms ma bad) = Inl e \<Longrightarrow> appended cfg rs terms ma bad = []"
  by (simp add: appended_def)

lemma appended_stat_failure: "pdf_stat bad = None \<Longrightarrow> appended cfg rs terms ma bad = []"
  by (simp add: appended_def process_file_def Let_def split: sum.splits)

lemma scan_without:
  assumes "appended cfg rs terms ma bad = []"
  shows "snd (scan cfg rs terms ma (before @ bad # after) acc)
           = snd (scan cfg rs terms ma (before @ after) acc)"
proof -
  from assms
  have "hits cfg rs terms ma (before @ bad # after) = hits cfg rs terms ma (before @ after)"
    by (simp add: hits_append hits_Cons)
  then show ?thesis by (simp add: scan_results)
qed

lemma search_a_c_all:
  "search_pdfs default_config (re_search beyond) (corpus [file_a, file_c]) ''100'' ''55'' [] True
     = ([Exists ''./pdfs'', Rglob ''./pdfs'', Open ''pdfs/expediente_100.pdf'',
         Open ''pdfs/100_55.pdf'', Stat ''pdfs/100_55.pdf'', Stat ''pdfs/100_55.pdf''],
        Inr [hit_c])"
  by code_simp

text \<open>
  C8, as stated, fails for a file that cannot be opened: it is not skipped. The sample
  file \<open>100_55.pdf\<close> is unreadable, the match-all search opens it, and returns it for
  the terms in its name.
\<close>

theorem unreadable_returned_counterexample:
  "pdf_pages file_c = None
   \<and> search_pdfs default_config (re_search unreached) (corpus [file_a, file_c])
        ''100'' ''55'' [] True
       = ([Exists ''./pdfs'', Rglob ''./pdfs'', Open ''pdfs/expediente_100.pdf'',
           Open ''pdfs/100_55.pdf'', Stat ''pdfs/100_55.pdf'', Stat ''pdfs/100_55.pdf''],
          Inr [hit_c])
   \<and> path hit_c = pdf_path file_c"
proof (intro conjI)
  show "pdf_pages file_c = None" by (simp add: file_c_def)
  show "search_pdfs default_config (re_search unreached) (corpus [file_a, file_c])
        ''100'' ''55'' [] True
       = ([Exists ''./pdfs'', Rglob ''./pdfs'', Open ''pdfs/expediente_100.pdf'',
           Open ''pdfs/100_55.pdf'', Stat ''pdfs/100_55.pdf'', Stat ''pdfs/100_55.pdf''],
          Inr [hit_c])"
    by (rule search_a_c_all)
  show "path hit_c = pdf_path file_c" by (simp add: hit_c_def file_c_def)
qed

text \<open>
  C8, amended. A failure on one file never ends a search. When the file cannot be
  opened or parsed, or one of its first five pages cannot be read, the extracted text is
  empty and the file is processed as a document without text: it is still returned when
  its name matches. Every exception raised while a file is processed, the one of a
  failing \<open>stat()\<close> or one that leaves the content matcher, skips that file: it adds no
  record, and the scan returns what it returns without that file, whatever was
  accumulated before. Whenever the search directory exists the search answers a list.
\<close>

theorem per_file_failures:
  "((pdf_pages pdf = None \<or> (\<exists>pages. pdf_pages pdf = Some pages \<and> None \<in> set (take 5 pages)))
      \<longrightarrow> extract_text_from_pdf cfg pdf = []
          \<and> process_file cfg rs terms ma pdf
              = process_file cfg rs terms ma (pdf \<lparr> pdf_pages := Some [] \<rparr>))
   \<and> ((snd (process_file cfg rs terms ma bad) = Inl e \<or> pdf_stat bad = None)
      \<longrightarrow> appended cfg rs terms ma bad = []
          \<and> snd (scan cfg rs terms ma (before @ bad # after) acc)
              = snd (scan cfg rs terms ma (before @ after) acc))
   \<and> ((search_in_filename cfg (pdf_name bad) terms = [] \<or> ma)
        \<and> search_in_content cfg rs (extract_text_from_pdf cfg bad) terms = Inl e
      \<longrightarrow> snd (process_file cfg rs terms ma bad) = Inl e)
   \<and> (path_exists fs (search_directory cfg)
      \<longrightarrow> (\<exists>found. snd (search_pdfs cfg rs fs expediente sello caratula ma) = Inr found))"
proof (intro conjI impI)
  assume f: "pdf_pages pdf = None \<or> (\<exists>pages. pdf_pages pdf = Some pages \<and> None \<in> set (take 5 pages))"
  then show e: "extract_text_from_pdf cfg pdf = []" by (rule extract_failure)
  show "process_file cfg rs terms ma pdf
          = process_file cfg rs terms ma (pdf \<lparr> pdf_pages := Some [] \<rparr>)"
    by (cases "pdf_stat pdf")
       (simp_all add: process_file_def Let_def e extract_empty_document split: sum.splits)
next
  assume "snd (process_file cfg rs terms ma bad) = Inl e \<or> pdf_stat bad = None"
  then show a: "appended cfg rs terms ma bad = []"
    using appended_raised appended_stat_failure by blast
  then show "snd (scan cfg rs terms ma (before @ bad # after) acc)
               = snd (scan cfg rs terms ma (before @ after) acc)"
    by (rule scan_without)
next
  assume "(search_in_filename cfg (pdf_name bad) terms = [] \<or> ma)
        \<and> search_in_content cfg rs (extract_text_from_pdf cfg bad) terms = Inl e"
  then show "snd (process_file cfg rs terms ma bad) = Inl e"
    by (auto simp: process_file_def Let_def)
next
  assume "path_exists fs (search_directory cfg)"
  then show "\<exists>found. snd (search_pdfs cfg rs fs expediente sello caratula ma) = Inr found"
    by (simp add: search_results)
qed

lemma process_f_raises:
  "process_file default_config (re_search beyond)
     [(''expediente'', ''100''), (''sello'', huge_repeat)] False file_f
     = ([Open ''pdfs/f.pdf''], Inl OverflowError)"
  by code_simp

lemma scan_a_f_d:
  "scan default_config (re_search beyond)
     [(''expediente'', ''100''), (''sello'', huge_repeat)] False [file_a, file_f, file_d] []
     = ([Stat ''pdfs/expediente_100.pdf'', Stat ''pdfs/expediente_100.pdf'',
         Open ''pdfs/f.pdf'', Stat ''pdfs/100_locked.pdf''],
        [hit_a])"
  by code_simp

theorem per_file_failures_witness:
  "pdf_pages file_d = None \<and> extract_text_from_pdf default_config file_d = []
   \<and> pdf_stat file_d = None
   \<and> snd (process_file default_config (re_search unreached)
            [(''expediente'', ''100''), (''sello'', huge_repeat)] False file_f)
       = Inl OverflowError
   \<and> snd (scan default_config (re_search unreached)
            [(''expediente'', ''100''), (''sello'', huge_repeat)] False
            ([file_a] @ file_f # [file_d]) []) = [hit_a]
   \<and> snd (scan default_config (re_search unreached)
            [(''expediente'', ''100''), (''sello'', huge_repeat)] False
            ([file_a] @ [file_d]) []) = [hit_a]
   \<and> snd (scan default_config (re_search unreached)
            [(''expediente'', ''100''), (''sello'', huge_repeat)] False
            ([file_a] @ []) []) = [hit_a]"
proof -
  let ?terms = "[(''expediente'', ''100''), (''sello'', huge_repeat)]"
  have p: "pdf_pages file_d = None" by (simp add: file_d_def)
  have s: "pdf_stat file_d = None" by (simp add: file_d_def)
  have r: "snd (process_file default_config (re_search unreached) ?terms False file_f)
             = Inl OverflowError"
    by (simp only: process_f_raises snd_conv)
  have full: "snd (scan default_config (re_search unreached) ?terms False
                    ([file_a] @ file_f # [file_d]) []) = [hit_a]"
    by (simp only: append_Cons append_Nil scan_a_f_d snd_conv)
  note f = per_file_failures [where pdf = file_d and cfg = default_config
      and rs = "re_search unreached" and terms = ?terms and ma = False
      and bad = file_f and e = OverflowError and before = "[file_a]" and after = "[file_d]"
      and acc = "[]"]
  note d = per_file_failures [where pdf = file_d and cfg = default_config
      and rs = "re_search unreached" and terms = ?terms and ma = False
      and bad = file_d and e = OSError and before = "[file_a]" and after = "[]"
      and acc = "[]"]
  from f p have e: "extract_text_from_pdf default_config file_d = []" by blast
  from f r have "snd (scan default_config (re_search unreached) ?terms False
                        ([file_a] @ file_f # [file_d]) [])
                   = snd (scan default_config (re_search unreached) ?terms False
                        ([file_a] @ [file_d]) [])"
    by blast
  with full have two: "snd (scan default_config (re_search unreached) ?terms False
                        ([file_a] @ [file_d]) []) = [hit_a]"
    by (simp only:)
  from d s have "snd (scan default_config (re_search unreached) ?terms False
                        ([file_a] @ file_d # []) [])
                   = snd (scan default_config (re_search unreached) ?terms False
                        ([file_a] @ []) [])"
    by blast
  with two have one: "snd (scan default_config (re_search unreached) ?terms False
                        ([file_a] @ []) []) = [hit_a]"
    by (simp only: append_Cons append_Nil)
  from p e s r full two one show ?thesis by (intro conjI)
qed

subsection \<open>The pattern variants of the content matcher\<close>

text \<open>
  The five variants, in the order the loop tries them, on a term that has a hyphen, a
  slash and a space.
\<close>

lemma patterns_a_b_c_d:
  "patterns ''a-b/c d'' =
        [''a-b/c d'',
         ''a'' @ [backslash] @ ''-b/c'' @ [backslash] @ '' d'',
         ''a[-'' @ [backslash] @ ''s]?b/c d'',
         ''a-b[/'' @ [backslash] @ ''s]?c d'',
         ''a-b/c'' @ [backslash] @ ''s+d'']"
  by code_simp

text \<open>
  A variant on which the library raises \<open>re.error\<close> is passed over: the term \<open>+\<close> is
  found through its escaped variant.
\<close>

lemma malformed_variant_skipped:
  "re_search beyond ic ''+'' ''+'' = PatternError
   \<and> search_in_content cfg (re_search beyond) ''+'' [(k, ''+'')] = Inr [k]"
proof
  show first: "re_search beyond ic ''+'' ''+'' = PatternError" for ic
    by (simp add: re_search_def)
  have l: "lower ''+'' = ''+''" by code_simp
  have e: "re_escape ''+'' = [backslash, CHR ''+'']" by code_simp
  have second: "re_search beyond ic (re_escape ''+'') ''+'' = Matched" for ic
    by (simp add: e re_search_def backslash_def ascii_alnum_def)
  have "try_patterns (re_search beyond) ic (patterns ''+'') ''+'' = Inr True" for ic
    by (simp add: patterns_def first second)
  then show "search_in_content cfg (re_search beyond) ''+'' [(k, ''+'')] = Inr [k]"
    by (simp add: l)
qed

text \<open>The term \<open>123-456\<close> matches every content that contains \<open>123 456\<close>.\<close>

lemma content_123_456:
  "search_in_content cfg (re_search beyond) (pre @ ''123 456'' @ post) [(k, ''123-456'')]
     = Inr [k]"
proof -
  let ?content = "pre @ ''123 456'' @ post"
  have l: "lower ''123-456'' = ''123-456''" by code_simp
  have pl: "\<forall>c\<in>set ''123-456''. plain c"
    by (simp add: plain_def metachars_def backslash_def)
  have p: "parse_re Normal [] (''123[-'' @ [backslash] @ ''s]?456'')
             = Parsed [(Lit CHR ''1'', One), (Lit CHR ''2'', One), (Lit CHR ''3'', One),
                       (Class [CLit CHR ''-'', CSpace], Opt),
                       (Lit CHR ''4'', One), (Lit CHR ''5'', One), (Lit CHR ''6'', One)]"
    by code_simp
  have "match_here ic [(Lit CHR ''1'', One), (Lit CHR ''2'', One), (Lit CHR ''3'', One),
                       (Class [CLit CHR ''-'', CSpace], Opt),
                       (Lit CHR ''4'', One), (Lit CHR ''5'', One), (Lit CHR ''6'', One)]
          ''123 456''" for ic
    by (simp add: isspace_def)
  then have third: "re_search beyond ic (''123[-'' @ [backslash] @ ''s]?456'') ?content
                      = Matched" for ic
    by (simp only: re_search_def p parsed.case match_anywhere_inside if_True)
  have ps: "patterns ''123-456'' =
     ''123-456'' # re_escape ''123-456'' # (''123[-'' @ [backslash] @ ''s]?456'')
       # [''123-456'', ''123-456'']"
    by code_simp
  have first: "re_search beyond ic ''123-456'' ?content \<in> {Matched, NoMatch, PatternError}"
    for ic
    by (rule plain_variants_answered(1) [OF pl])
  have second: "re_search beyond ic (re_escape ''123-456'') ?content
                  \<in> {Matched, NoMatch, PatternError}" for ic
    by (rule plain_variants_answered(2) [OF pl])
  have "try_patterns (re_search beyond) ic (patterns ''123-456'') ?content = Inr True" for ic
    unfolding ps
    by (rule try_patterns_third [where rs = "re_search beyond", OF first second third])
  then show ?thesis
    by (simp add: l)
qed

lemma search_f_huge:
  "search_pdfs default_config (re_search beyond) (corpus [file_f]) huge_repeat [] [] False
     = ([Exists ''./pdfs'', Rglob ''./pdfs'', Open ''pdfs/f.pdf''], Inr [])"
  by code_simp

text \<open>
  C9. The claim is right and the code falls short of it. The loop means to pass over a
  pattern that the library rejects, and does so when the library raises \<open>re.error\<close>. On
  a repeat count that is too large the library raises \<open>OverflowError\<close> instead, which
  \<open>except re.error\<close> does not catch: for the term \<open>a{99999999999}\<close> the first variant
  raises, the matcher fails whatever the content, and the scan skips the file. The
  escaped variant, never tried, matches a content that holds the term: the sample file
  holds it and is not found.
\<close>

theorem overflow_leaves_matcher:
  "search_in_content cfg (re_search beyond) content [(k, huge_repeat)] = Inl OverflowError
   \<and> re_search beyond ic (re_escape huge_repeat) (pre @ huge_repeat @ post) = Matched
   \<and> search_pdfs default_config (re_search unreached) (corpus [file_f]) huge_repeat [] [] False
       = ([Exists ''./pdfs'', Rglob ''./pdfs'', Open ''pdfs/f.pdf''], Inr [])"
proof (intro conjI)
  have l: "lower huge_repeat = huge_repeat" by code_simp
  have ne: "huge_repeat \<noteq> []" by (simp add: huge_repeat_def)
  have "parse_re Normal [] huge_repeat = TooLarge" by code_simp
  then have "re_search beyond ic huge_repeat content = Raised OverflowError" for ic
    by (simp add: re_search_def)
  then have "try_patterns (re_search beyond) ic (patterns huge_repeat) content
               = Inl OverflowError" for ic
    by (simp add: patterns_def)
  with ne show "search_in_content cfg (re_search beyond) content [(k, huge_repeat)]
                  = Inl OverflowError"
    by (simp add: l)
next
  have "parse_re Normal [] (re_escape huge_repeat)
          = Parsed (map (\<lambda>c. (Lit c, One)) huge_repeat)"
    by code_simp
  moreover have "match_anywhere ic (map (\<lambda>c. (Lit c, One)) huge_repeat)
                   (pre @ huge_repeat @ post)"
    by (rule match_anywhere_inside [OF match_literals])
  ultimately show "re_search beyond ic (re_escape huge_repeat) (pre @ huge_repeat @ post)
                     = Matched"
    by (simp add: re_search_def)
next
  show "search_pdfs default_config (re_search unreached) (corpus [file_f]) huge_repeat [] [] False
       = ([Exists ''./pdfs'', Rglob ''./pdfs'', Open ''pdfs/f.pdf''], Inr [])"
    by (rule search_f_huge)
qed

subsection \<open>A hyphen that the content leaves out\<close>

lemma no_variant_of_1_2_3:
  "search_in_content default_config (re_search beyond) ''12+3'' [(''expediente'', ''1-2+3'')]
     = Inr []
   \<and> map (\<lambda>p. re_search beyond True p ''12+3'') (patterns (lower ''1-2+3''))
       = [NoMatch, NoMatch, NoMatch, NoMatch, NoMatch]"
  by code_simp

text \<open>
  C10, as stated for every term, fails for a term with a character that means something
  in a pattern: no variant of \<open>1-2+3\<close> matches the content \<open>12+3\<close>, since \<open>2+\<close> is
  read as a repetition in every variant but the escaped one, which asks for the hyphen.
\<close>

theorem hyphen_deleted_counterexample:
  "search_in_content default_config (re_search unreached) ''12+3'' [(''expediente'', ''1-2+3'')]
     = Inr []
   \<and> without_hyphens ''1-2+3'' = ''12+3''
   \<and> map (\<lambda>p. re_search unreached True p ''12+3'') (patterns (lower ''1-2+3''))
       = [NoMatch, NoMatch, NoMatch, NoMatch, NoMatch]"
proof (intro conjI)
  show "search_in_content default_config (re_search unreached) ''12+3''
          [(''expediente'', ''1-2+3'')] = Inr []"
    by (rule no_variant_of_1_2_3 [THEN conjunct1])
  show "without_hyphens ''1-2+3'' = ''12+3''"
    by code_simp
  show "map (\<lambda>p. re_search unreached True p ''12+3'') (patterns (lower ''1-2+3''))
       = [NoMatch, NoMatch, NoMatch, NoMatch, NoMatch]"
    by (rule no_variant_of_1_2_3 [THEN conjunct2])
qed

text \<open>
  C10, amended. For every non-empty term without pattern metacharacters
  (\<open>. ^ $ * + ? { } [ ] ( ) | \<close> and the backslash), the content matcher records the field
  when the content contains the term with its hyphens deleted, or, when the search is
  not case-sensitive, a text equal to it up to case: the hyphen variant makes each
  hyphen an optional character.
\<close>

theorem hyphen_deleted_match:
  assumes "term_value \<noteq> []" and "\<forall>c\<in>set term_value. plain c"
    and "w = without_hyphens term_value
         \<or> (\<not> case_sensitive cfg \<and> lower w = lower (without_hyphens term_value))"
  shows "search_in_content cfg (re_search beyond) (pre @ w @ post) [(k, term_value)] = Inr [k]"
proof -
  let ?ic = "\<not> case_sensitive cfg"
  let ?t = "if ?ic then lower term_value else term_value"
  let ?p = "replace CHR ''-'' (''[-'' @ [backslash] @ ''s]?'') ?t"
  have pl: "\<forall>c\<in>set ?t. plain c"
    using assms(2) by (auto simp: lower_def plain_lower)
  have wh: "without_hyphens (lower term_value) = lower (without_hyphens term_value)"
    by (simp add: without_hyphens_def lower_def filter_map comp_def lower_char_hyphen)
  have idem: "lower (lower s) = lower s" for s
    by (simp add: lower_def lower_char_idem)
  have "map (if ?ic then lower_char else id) w
          = map (if ?ic then lower_char else id) (without_hyphens ?t)"
    using assms(3) wh idem by (auto simp: lower_def)
  then have "match_here ?ic (hyphen_items ?t) w"
    by (rule match_hyphen_items)
  then have "match_anywhere ?ic (hyphen_items ?t) (pre @ w @ post)"
    by (rule match_anywhere_inside)
  moreover have "parse_re Normal [] ?p = Parsed (hyphen_items ?t)"
    using parse_hyphen_variant [OF pl, of "[]"] by simp
  ultimately have third: "re_search beyond ?ic ?p (pre @ w @ post) = Matched"
    by (simp add: re_search_def)
  have "\<exists>ps. patterns ?t = ?t # re_escape ?t # ?p # ps"
    by (simp add: patterns_def)
  then obtain ps where ps: "patterns ?t = ?t # re_escape ?t # ?p # ps" ..
  have first: "re_search beyond ?ic ?t (pre @ w @ post) \<in> {Matched, NoMatch, PatternError}"
    by (rule plain_variants_answered(1) [OF pl])
  have second: "re_search beyond ?ic (re_escape ?t) (pre @ w @ post)
                  \<in> {Matched, NoMatch, PatternError}"
    by (rule plain_variants_answered(2) [OF pl])
  have "try_patterns (re_search beyond) ?ic (patterns ?t) (pre @ w @ post) = Inr True"
    unfolding ps
    by (rule try_patterns_third [where rs = "re_search beyond", OF first second third])
  with assms(1) show ?thesis by (simp add: Let_def)
qed

theorem hyphen_deleted_match_witness:
  "''123-456'' \<noteq> [] \<and> list_all plain ''123-456''
   \<and> ''123456'' = without_hyphens ''123-456''
   \<and> search_in_content default_config (re_search unreached) (''exp '' @ ''123456'' @ ''.'')
        [(''expediente'', ''123-456'')] = Inr [''expediente'']"
proof -
  have a: "''123-456'' \<noteq> []" by simp
  have b: "list_all plain ''123-456''" by code_simp
  then have b': "\<forall>c\<in>set ''123-456''. plain c" by (simp only: list_all_iff)
  have c: "''123456'' = without_hyphens ''123-456''" by code_simp
  then have c': "''123456'' = without_hyphens ''123-456''
        \<or> (\<not> case_sensitive default_config
            \<and> lower ''123456'' = lower (without_hyphens ''123-456''))" ..
  note m = hyphen_deleted_match [OF a b' c', of unreached "''exp ''" "''.''" "''expediente''"]
  from a b c m show ?thesis by (intro conjI)
qed


end
